theory Spec2Isabelle
  imports Complex_Main
begin

section \<open>The notebook \<open>10-multiple-results-per-prompt.ipynb\<close>\<close>

text \<open>
  The notebook selects a backend, builds request settings, calls one SDK method per cell and
  prints what comes back. Its cells are embedded here as functions from what the SDK hands
  back (a list of results, a stream of chunk batches, or an exception) to what the cell
  shows: the list of display events in order, and the exception that leaves the cell, if any.
\<close>

subsection \<open>Services, exceptions, display events\<close>

datatype service = OpenAI | AzureOpenAI | HuggingFace

text \<open>
  The exceptions the notebook's own statements can raise on the data modelled here:
  \<open>IndexError\<close>, Python's exception for a subscript out of range, and \<open>NameError\<close>, for
  a name that no statement has bound. \<open>SdkError e\<close> is an exception \<open>e\<close> raised inside an
  SDK call (auth error, rate limit, network error: the type \<open>'e\<close> is whatever the SDK
  raises).
\<close>

datatype py_error = IndexError | NameError

datatype 'e exc = SdkError 'e | PythonError py_error

datatype event = ClearOutput | Print string

text \<open>What a cell does: the display events it produced, and the exception it ended with.\<close>

type_synonym 'e outcome = "event list \<times> 'e exc option"

subsection \<open>Formatting\<close>

text \<open>\<open>str(i)\<close> of a non-negative Python int, as the f-strings of the notebook format it.\<close>

definition digit :: "nat \<Rightarrow> char" where
  "digit d = ''0123456789'' ! d"

function str_nat :: "nat \<Rightarrow> string" where
  "str_nat i = (if i < 10 then [digit i] else str_nat (i div 10) @ [digit (i mod 10)])"
  by pat_completeness auto
termination
  by (relation "measure id") auto

declare str_nat.simps [simp del]

text \<open>The line \<open>f"Result {i}: {text}"\<close>.\<close>

definition result_line :: "nat \<Rightarrow> string \<Rightarrow> string" where
  "result_line i text = ''Result '' @ str_nat i @ '': '' @ text"

definition separator :: string where
  "separator = ''----------------------------------------''"

subsection \<open>The streaming cell\<close>

text \<open>
  Timestamps are the values of \<open>time.time()\<close>, in seconds. They are taken as exact
  numbers; \<open>clear_interval = 0.5\<close>.
\<close>

type_synonym time = rat

definition clear_interval :: time where
  "clear_interval = 1 / 2"

text \<open>
  The loop's variables: the accumulator \<open>texts\<close> and \<open>last_clear_time\<close>; the display
  events produced so far; and \<open>clears\<close>, a history variable holding the times of the
  clear-and-reprints so far (the notebook keeps only the last one, in \<open>last_clear_time\<close>,
  which starts as the time before the loop although nothing is cleared then).
\<close>

record loop_state =
  texts :: "string list"
  last_clear_time :: time
  shown :: "event list"
  clears :: "time list"

text \<open>
  \<^verbatim>\<open>texts = [""] * number_of_responses\<close> and \<^verbatim>\<open>last_clear_time = time.time()\<close>.
  Python's list repetition by a negative int gives the empty list.
\<close>

definition init_state :: "int \<Rightarrow> time \<Rightarrow> loop_state" where
  "init_state number_of_responses now =
     \<lparr>texts = replicate (nat number_of_responses) '''', last_clear_time = now, shown = [],
      clears = []\<rparr>"

text \<open>
  \<^verbatim>\<open>for idx, result in enumerate(results):
      if idx < number_of_responses:
          texts[idx] += result\<close>
  The second argument is the running index of \<open>enumerate\<close>. The subscript \<open>texts[idx]\<close>
  raises \<open>IndexError\<close> when \<open>idx\<close> is not below the length of \<open>texts\<close>.
\<close>

fun update_texts :: "int \<Rightarrow> nat \<Rightarrow> string list \<Rightarrow> string list \<Rightarrow> py_error + string list" where
  "update_texts number_of_responses idx txts [] = Inr txts"
| "update_texts number_of_responses idx txts (result # results) =
     (if int idx < number_of_responses then
        (if idx < length txts
         then update_texts number_of_responses (Suc idx) (txts[idx := txts ! idx @ result]) results
         else Inl IndexError)
      else update_texts number_of_responses (Suc idx) txts results)"

text \<open>
  \<^verbatim>\<open>for idx, text in enumerate(texts):
      print(f"Result {idx + 1}: {text}")\<close>
\<close>

definition print_texts :: "string list \<Rightarrow> event list" where
  "print_texts txts = map (\<lambda>(idx, text). Print (result_line (idx + 1) text)) (enumerate 0 txts)"

text \<open>
  One iteration of \<^verbatim>\<open>async for results in stream\<close>: the batch \<open>results\<close> arrives and
  \<open>time.time()\<close> returns \<open>current_time\<close>. An exception ends the loop in the state the
  iteration started from (the cell has displayed its events by then).
\<close>

definition stream_body ::
  "int \<Rightarrow> loop_state \<Rightarrow> time \<times> string list \<Rightarrow> (py_error \<times> loop_state) + loop_state" where
  "stream_body number_of_responses st batch =
     (case batch of (current_time, results) \<Rightarrow>
        (case update_texts number_of_responses 0 (texts st) results of
           Inl e \<Rightarrow> Inl (e, st)
         | Inr txts \<Rightarrow>
             if current_time - last_clear_time st > clear_interval
             then Inr \<lparr>texts = txts, last_clear_time = current_time,
                       shown = shown st @ ClearOutput # print_texts txts,
                       clears = clears st @ [current_time]\<rparr>
             else Inr (st\<lparr>texts := txts\<rparr>)))"

fun stream_loop ::
  "int \<Rightarrow> loop_state \<Rightarrow> (time \<times> string list) list \<Rightarrow> (py_error \<times> loop_state) + loop_state" where
  "stream_loop number_of_responses st [] = Inr st"
| "stream_loop number_of_responses st (batch # stream) =
     (case stream_body number_of_responses st batch of
        Inl x \<Rightarrow> Inl x
      | Inr st' \<Rightarrow> stream_loop number_of_responses st' stream)"

text \<open>
  The whole cell. The stream is the list of batches it yields, each with the time read on
  its arrival, and how it ends: exhausted (\<open>None\<close>) or by an exception of the SDK
  (\<open>Some e\<close>). \<open>now\<close> is the time read before the loop. The cell does nothing unless the
  selected service is OpenAI.
\<close>

definition streaming_cell ::
  "service \<Rightarrow> int \<Rightarrow> time \<Rightarrow> (time \<times> string list) list \<Rightarrow> 'e option \<Rightarrow> 'e outcome" where
  "streaming_cell selectedService number_of_responses now stream failure =
     (if selectedService = OpenAI then
        (case stream_loop number_of_responses (init_state number_of_responses now) stream of
           Inl (e, st) \<Rightarrow> (shown st, Some (PythonError e))
         | Inr st \<Rightarrow>
             (case failure of
                Some e \<Rightarrow> (shown st, Some (SdkError e))
              | None \<Rightarrow> (shown st @ [Print separator], None)))
      else ([], None))"

text \<open>The chunks of slot \<open>i\<close>, in arrival order: the \<open>i\<close>-th chunk of every batch that has
  more than \<open>i\<close> chunks.\<close>

definition slot_chunks :: "nat \<Rightarrow> (time \<times> string list) list \<Rightarrow> string list" where
  "slot_chunks i stream = map (\<lambda>batch. snd batch ! i) (filter (\<lambda>batch. i < length (snd batch)) stream)"

subsection \<open>The redraw schedule\<close>

text \<open>The times at which a run of the loop cleared the screen and reprinted.\<close>

definition clear_times :: "int \<Rightarrow> time \<Rightarrow> (time \<times> string list) list \<Rightarrow> time list" where
  "clear_times number_of_responses now stream =
     (case stream_loop number_of_responses (init_state number_of_responses now) stream of
        Inl (e, st) \<Rightarrow> clears st
      | Inr st \<Rightarrow> clears st)"

text \<open>
  The reading "clear the terminal every 0.5s": the stream is consumed from \<open>now\<close> until its
  last batch arrives, and a clear-and-reprint occurs within \<open>clear_interval\<close> of a point
  \<open>t\<close> when one of the clear times is at most that far from \<open>t\<close>.
\<close>

definition end_time :: "time \<Rightarrow> (time \<times> string list) list \<Rightarrow> time" where
  "end_time now stream = (if stream = [] then now else fst (last stream))"

definition redrawn_within :: "time list \<Rightarrow> time \<Rightarrow> bool" where
  "redrawn_within cs t = list_ex (\<lambda>c. \<bar>c - t\<bar> \<le> clear_interval) cs"

definition redrawn_every_interval :: "int \<Rightarrow> time \<Rightarrow> (time \<times> string list) list \<Rightarrow> bool" where
  "redrawn_every_interval number_of_responses now stream =
     (clear_interval \<le> end_time now stream - now \<longrightarrow>
      (\<forall>t. now \<le> t \<and> t \<le> end_time now stream \<longrightarrow>
           redrawn_within (clear_times number_of_responses now stream) t))"

subsection \<open>The completion cells\<close>

text \<open>
  \<^verbatim>\<open>i = 1
  for result in results:
      print(f"Result {i}: {result}")
      i += 1\<close>
  The first argument is the counter \<open>i\<close>.
\<close>

fun print_results :: "nat \<Rightarrow> string list \<Rightarrow> event list" where
  "print_results i [] = []"
| "print_results i (result # results) = Print (result_line i result) # print_results (i + 1) results"

text \<open>
  A text-completion cell, guarded by \<^verbatim>\<open>if selectedService == Service.OpenAI\<close> (or
  \<open>AzureOpenAI\<close>: the first argument is the service of the guard). \<open>call\<close> is what
  \<^verbatim>\<open>await ...complete_async(...)\<close> does when the cell issues it: it raises (\<open>Inl\<close>) or
  returns the results.
\<close>

definition text_cell :: "service \<Rightarrow> service \<Rightarrow> 'e + string list \<Rightarrow> 'e outcome" where
  "text_cell guard selectedService call =
     (if selectedService = guard then
        (case call of
           Inl e \<Rightarrow> ([], Some (SdkError e))
         | Inr results \<Rightarrow> (print_results 1 results, None))
      else ([], None))"

text \<open>
  The chat cells start the counter at 0 and print \<open>result[0]\<close>. Each chat result is a tuple
  whose element 0 is the completion text; the rest of the tuple (type \<open>'r\<close>) is not used.
  \<^verbatim>\<open>i = 0
  for result in results:
      print(f"Result {i}: {result[0]}")
      i += 1\<close>
\<close>

fun print_chat_results :: "nat \<Rightarrow> (string \<times> 'r) list \<Rightarrow> event list" where
  "print_chat_results i [] = []"
| "print_chat_results i (result # results) =
     Print (result_line i (fst result)) # print_chat_results (i + 1) results"

definition chat_cell :: "service \<Rightarrow> service \<Rightarrow> 'e + (string \<times> 'r) list \<Rightarrow> 'e outcome" where
  "chat_cell guard selectedService call =
     (if selectedService = guard then
        (case call of
           Inl e \<Rightarrow> ([], Some (SdkError e))
         | Inr results \<Rightarrow> (print_chat_results 0 results, None))
      else ([], None))"


subsection \<open>Chat results as arbitrary sequences\<close>

text \<open>
  \<open>chat_cell\<close> takes each result as a tuple that has an element 0. Nothing in the notebook
  says so: a result is whatever the SDK returns, and \<open>result[0]\<close> is a subscript on it. Here
  a result is any Python sequence of texts (a tuple of any length, or a \<open>str\<close>, whose
  elements are its characters), and \<open>result[0]\<close> raises \<open>IndexError\<close> on an empty one.
\<close>

definition element0 :: "string list \<Rightarrow> py_error + string" where
  "element0 result = (case result of [] \<Rightarrow> Inl IndexError | x # rest \<Rightarrow> Inr x)"

text \<open>
  The print loop of the chat cells on such results: the lines printed, and the exception that
  ended the loop, if one did. The first argument is the counter \<open>i\<close>.
\<close>

fun print_chat_sequences :: "nat \<Rightarrow> string list list \<Rightarrow> event list \<times> py_error option" where
  "print_chat_sequences i [] = ([], None)"
| "print_chat_sequences i (result # results) =
     (case element0 result of
        Inl e \<Rightarrow> ([], Some e)
      | Inr x \<Rightarrow>
          (case print_chat_sequences (i + 1) results of
             (evs, err) \<Rightarrow> (Print (result_line i x) # evs, err)))"

definition chat_sequence_cell :: "service \<Rightarrow> service \<Rightarrow> 'e + string list list \<Rightarrow> 'e outcome" where
  "chat_sequence_cell guard selectedService call =
     (if selectedService = guard then
        (case call of
           Inl e \<Rightarrow> ([], Some (SdkError e))
         | Inr results \<Rightarrow>
             (case print_chat_sequences 0 results of
                (evs, err) \<Rightarrow> (evs, map_option PythonError err)))
      else ([], None))"

subsection \<open>The settings cells\<close>



subsection \<open>Request settings\<close>

text \<open>The values the notebook passes: Python ints and float literals.\<close>

datatype py_value = IntValue int | FloatValue rat

text \<open>
  Modelled from the spec: the SDK's request-settings classes (\<open>OpenAITextRequestSettings\<close>
  and its siblings), which the notebook imports and whose code is not part of it. The spec
  says of them that "the settings object stores the given keyword values": the object is the
  mapping from the given names to the given values (a later value for a name replaces an
  earlier one, as in a Python dict), and reading an attribute looks its name up.
\<close>

type_synonym request_settings = "string \<rightharpoonup> py_value"

definition OpenAITextRequestSettings :: "(string \<times> py_value) list \<Rightarrow> request_settings" where
  "OpenAITextRequestSettings extension_data = fold (\<lambda>(k, v) s. s(k \<mapsto> v)) extension_data Map.empty"

definition oai_text_request_settings :: request_settings where
  "oai_text_request_settings =
     OpenAITextRequestSettings
       [(''max_tokens'', IntValue 80),
        (''temperature'', FloatValue (7 / 10)),
        (''top_p'', IntValue 1),
        (''frequency_penalty'', FloatValue (1 / 2)),
        (''presence_penalty'', FloatValue (1 / 2)),
        (''number_of_responses'', IntValue 3)]"

section \<open>Properties\<close>

subsection \<open>The update step and the loop\<close>

text \<open>
  Chunks at an index that is not below \<open>number_of_responses\<close> are skipped, so a batch counts
  only up to that many chunks.
\<close>

lemma update_texts_beyond:
  "\<not> int idx < n \<Longrightarrow> update_texts n idx txts rs = Inr txts"
  by (induction rs arbitrary: idx) auto

lemma update_texts_take:
  "update_texts n idx txts rs = update_texts n idx txts (take (nat n - idx) rs)"
proof (induction rs arbitrary: idx txts)
  case Nil
  show ?case by simp
next
  case (Cons r rs)
  show ?case
  proof (cases "int idx < n")
    case True
    then have "nat n - idx = Suc (nat n - Suc idx)" by linarith
    then have t: "take (nat n - idx) (r # rs) = r # take (nat n - Suc idx) rs"
      by simp
    show ?thesis
      using True Cons.IH [of "Suc idx"] by (simp add: t)
  next
    case False
    then show ?thesis
      by (simp add: update_texts_beyond)
  qed
qed

lemma update_texts_Inr:
  "n \<le> int (length txts) \<Longrightarrow>
   \<exists>txts'. update_texts n idx txts rs = Inr txts' \<and> length txts' = length txts \<and>
     (\<forall>i < length txts. txts' ! i =
        (if idx \<le> i \<and> i < idx + length rs \<and> int i < n then txts ! i @ rs ! (i - idx)
         else txts ! i))"
proof (induction rs arbitrary: idx txts)
  case Nil
  then show ?case by auto
next
  case (Cons r rs)
  show ?case
  proof (cases "int idx < n")
    case True
    with Cons.prems have lt: "idx < length txts" by linarith
    let ?t = "txts[idx := txts ! idx @ r]"
    from Cons.prems have "n \<le> int (length ?t)" by simp
    from Cons.IH [OF this, of "Suc idx"] obtain txts' where
      r: "update_texts n (Suc idx) ?t rs = Inr txts'" and
      l: "length txts' = length ?t" and
      c: "\<forall>i < length ?t. txts' ! i =
        (if Suc idx \<le> i \<and> i < Suc idx + length rs \<and> int i < n then ?t ! i @ rs ! (i - Suc idx)
         else ?t ! i)"
      by blast
    have "update_texts n idx txts (r # rs) = Inr txts'"
      using True lt r by simp
    moreover have "length txts' = length txts" using l by simp
    moreover have "\<forall>i < length txts. txts' ! i =
        (if idx \<le> i \<and> i < idx + length (r # rs) \<and> int i < n then txts ! i @ (r # rs) ! (i - idx)
         else txts ! i)"
    proof (intro allI impI)
      fix i assume i: "i < length txts"
      show "txts' ! i =
        (if idx \<le> i \<and> i < idx + length (r # rs) \<and> int i < n then txts ! i @ (r # rs) ! (i - idx)
         else txts ! i)"
      proof (cases "i = idx")
        case True
        then show ?thesis using c i \<open>int idx < n\<close> by simp
      next
        case False
        then show ?thesis using c i by (auto simp: nth_Cons')
      qed
    qed
    ultimately show ?thesis by blast
  next
    case False
    then have "update_texts n idx txts (r # rs) = Inr txts"
      by (simp add: update_texts_beyond)
    moreover have "\<forall>i < length txts. \<not> (idx \<le> i \<and> int i < n)"
      using False by auto
    ultimately show ?thesis by auto
  qed
qed

text \<open>One iteration, from a state whose accumulator is long enough.\<close>

lemma stream_body_Inr:
  assumes "n \<le> int (length (texts st))"
  shows "\<exists>txts. update_texts n 0 (texts st) rs = Inr txts \<and> length txts = length (texts st) \<and>
     (\<forall>i < length (texts st). txts ! i =
        (if i < length rs \<and> int i < n then texts st ! i @ rs ! i else texts st ! i)) \<and>
     stream_body n st (t, rs) =
       Inr (if clear_interval < t - last_clear_time st
            then \<lparr>texts = txts, last_clear_time = t,
                   shown = shown st @ ClearOutput # print_texts txts,
                   clears = clears st @ [t]\<rparr>
            else st\<lparr>texts := txts\<rparr>)"
proof -
  from update_texts_Inr [OF assms, of 0 rs] obtain txts where
    u: "update_texts n 0 (texts st) rs = Inr txts" and
    l: "length txts = length (texts st)" and
    c: "\<forall>i < length (texts st). txts ! i =
        (if 0 \<le> i \<and> i < 0 + length rs \<and> int i < n then texts st ! i @ rs ! (i - 0)
         else texts st ! i)"
    by blast
  have "stream_body n st (t, rs) =
       Inr (if clear_interval < t - last_clear_time st
            then \<lparr>texts = txts, last_clear_time = t,
                   shown = shown st @ ClearOutput # print_texts txts,
                   clears = clears st @ [t]\<rparr>
            else st\<lparr>texts := txts\<rparr>)"
    by (simp add: stream_body_def u)
  with u l c show ?thesis by auto
qed

lemma stream_loop_append:
  "stream_loop n st (bs @ cs) =
     (case stream_loop n st bs of Inl x \<Rightarrow> Inl x | Inr st' \<Rightarrow> stream_loop n st' cs)"
  by (induction bs arbitrary: st) (auto split: sum.splits)

lemma stream_loop_Inr:
  "n \<le> int (length (texts st)) \<Longrightarrow>
   \<exists>st'. stream_loop n st bs = Inr st' \<and> length (texts st') = length (texts st) \<and>
     (\<forall>i < length (texts st). int i < n \<longrightarrow>
        texts st' ! i = texts st ! i @ concat (slot_chunks i bs))"
proof (induction bs arbitrary: st)
  case Nil
  then show ?case by (simp add: slot_chunks_def)
next
  case (Cons b bs)
  obtain t rs where b: "b = (t, rs)" by (cases b)
  from stream_body_Inr [OF Cons.prems, of rs t] obtain txts st1 where
    l: "length txts = length (texts st)" and
    c: "\<forall>i < length (texts st). txts ! i =
        (if i < length rs \<and> int i < n then texts st ! i @ rs ! i else texts st ! i)" and
    s: "stream_body n st (t, rs) = Inr st1" and
    t1: "texts st1 = txts"
    by (cases "clear_interval < t - last_clear_time st") auto
  from l t1 Cons.prems have "n \<le> int (length (texts st1))" by simp
  from Cons.IH [OF this] obtain st' where
    r: "stream_loop n st1 bs = Inr st'" and
    l': "length (texts st') = length (texts st1)" and
    c': "\<forall>i < length (texts st1). int i < n \<longrightarrow>
        texts st' ! i = texts st1 ! i @ concat (slot_chunks i bs)"
    by blast
  have "stream_loop n st (b # bs) = Inr st'"
    using b s r by simp
  moreover have "length (texts st') = length (texts st)"
    using l l' t1 by simp
  moreover have "\<forall>i < length (texts st). int i < n \<longrightarrow>
        texts st' ! i = texts st ! i @ concat (slot_chunks i (b # bs))"
    using c c' l t1 b by (auto simp: slot_chunks_def)
  ultimately show ?case by blast
qed

lemma init_state_long_enough: "n \<le> int (length (texts (init_state n now)))"
  by (simp add: init_state_def)

lemma print_texts_nth:
  "print_texts txts = map (\<lambda>i. Print (result_line (i + 1) (txts ! i))) [0..<length txts]"
  by (rule nth_equalityI) (simp_all add: print_texts_def nth_enumerate_eq)

lemma reachable_long_enough:
  assumes "stream_loop n (init_state n now) stream = Inr st"
  shows "length (texts st) = nat n"
proof -
  from stream_loop_Inr [OF init_state_long_enough, of n now stream] assms
  have "length (texts st) = length (texts (init_state n now))" by auto
  then show ?thesis by (simp add: init_state_def)
qed

subsection \<open>The accumulator\<close>

text \<open>
  Claim C3. For a count \<open>n\<close> of responses (a Python int that is not negative), \<open>texts\<close> starts
  as the list of exactly \<open>n\<close> empty strings, and after any number of iterations of the
  streaming loop (the stream is arbitrary, so this covers every point the loop reaches) the
  loop has raised nothing and \<open>texts\<close> still has exactly \<open>n\<close> entries.
\<close>

theorem texts_length_invariant:
  assumes "0 \<le> n"
  shows "texts (init_state n now) = replicate (nat n) '''' \<and>
         int (length (texts (init_state n now))) = n \<and>
         (\<exists>st. stream_loop n (init_state n now) stream = Inr st \<and> int (length (texts st)) = n)"
proof -
  from stream_loop_Inr [OF init_state_long_enough, of n now stream] obtain st where
    s: "stream_loop n (init_state n now) stream = Inr st" by blast
  from reachable_long_enough [OF s] assms have "int (length (texts st)) = n" by simp
  with s assms show ?thesis by (auto simp: init_state_def)
qed

text \<open>The count 3 of the notebook, on a stream of three batches.\<close>

theorem texts_length_invariant_witness:
  "texts (init_state 3 0) = ['''', '''', ''''] \<and>
   stream_loop 3 (init_state 3 0)
     [(3 / 10, [''a'', ''b'', ''c'']), (9 / 10, [''d'', ''e'', ''f'', ''g'']), (1, [''h''])] =
     Inr \<lparr>texts = [''adh'', ''be'', ''cf''], last_clear_time = 9 / 10,
          shown = [ClearOutput, Print ''Result 1: ad'', Print ''Result 2: be'', Print ''Result 3: cf''],
          clears = [9 / 10]\<rparr> \<and>
   (\<exists>st. stream_loop 3 (init_state 3 0)
     [(3 / 10, [''a'', ''b'', ''c'']), (9 / 10, [''d'', ''e'', ''f'', ''g'']), (1, [''h''])] = Inr st \<and>
     int (length (texts st)) = 3)"
  using texts_length_invariant [of 3 0 "[(3 / 10, [''a'', ''b'', ''c'']), (9 / 10, [''d'', ''e'', ''f'', ''g'']), (1, [''h''])]"]
  by (simp add: init_state_def stream_body_def clear_interval_def print_texts_def
      enumerate_eq_zip result_line_def str_nat.simps digit_def numeral_3_eq_3)

text \<open>
  Claim C2. For every finite stream the loop ends normally, and for every slot \<open>i\<close> below
  \<open>number_of_responses\<close> the final \<open>texts[i]\<close> is the concatenation, in arrival order, of the
  \<open>i\<close>-th chunk of every batch that has more than \<open>i\<close> chunks.
\<close>

theorem texts_are_slot_concatenations:
  assumes "int i < n"
  shows "\<exists>st. stream_loop n (init_state n now) stream = Inr st \<and>
              texts st ! i = concat (slot_chunks i stream)"
proof -
  from assms have i: "i < length (texts (init_state n now))"
    by (simp add: init_state_def)
  from stream_loop_Inr [OF init_state_long_enough, of n now stream] obtain st where
    s: "stream_loop n (init_state n now) stream = Inr st" and
    c: "\<forall>i < length (texts (init_state n now)). int i < n \<longrightarrow>
        texts st ! i = texts (init_state n now) ! i @ concat (slot_chunks i stream)"
    by blast
  from i have "texts (init_state n now) ! i = []"
    by (simp add: init_state_def)
  with c i assms s show ?thesis by auto
qed

text \<open>Slot 1 of a stream whose last batch has no chunk for it.\<close>

theorem texts_are_slot_concatenations_witness:
  "int 1 < 3 \<and>
   stream_loop 3 (init_state 3 0)
     [(3 / 10, [''a'', ''b'', ''c'']), (9 / 10, [''d'', ''e'', ''f'', ''g'']), (1, [''h''])] =
     Inr \<lparr>texts = [''adh'', ''be'', ''cf''], last_clear_time = 9 / 10,
          shown = [ClearOutput, Print ''Result 1: ad'', Print ''Result 2: be'', Print ''Result 3: cf''],
          clears = [9 / 10]\<rparr> \<and>
   concat (slot_chunks 1
     [(3 / 10, [''a'', ''b'', ''c'']), (9 / 10, [''d'', ''e'', ''f'', ''g'']), (1, [''h''])]) = ''be''"
  using texts_are_slot_concatenations [of 1 3 0
    "[(3 / 10, [''a'', ''b'', ''c'']), (9 / 10, [''d'', ''e'', ''f'', ''g'']), (1, [''h''])]"]
  by (simp add: init_state_def stream_body_def clear_interval_def print_texts_def
      enumerate_eq_zip result_line_def str_nat.simps digit_def numeral_3_eq_3 slot_chunks_def)

text \<open>
  Claim C9. In every state the loop reaches, the update step on a batch of any length does
  what it does on the first \<open>number_of_responses\<close> chunks of the batch alone (the chunks at
  an index from \<open>number_of_responses\<close> on are dropped), and it returns the updated list: it
  never raises \<open>IndexError\<close>.
\<close>

theorem update_texts_in_range:
  assumes "stream_loop n (init_state n now) stream = Inr st"
  shows "update_texts n 0 (texts st) results = update_texts n 0 (texts st) (take (nat n) results) \<and>
         (\<exists>txts. update_texts n 0 (texts st) results = Inr txts \<and> length txts = length (texts st))"
proof -
  have "n \<le> int (length (texts st))"
    using reachable_long_enough [OF assms] by simp
  from update_texts_Inr [OF this, of 0 results]
  have "\<exists>txts. update_texts n 0 (texts st) results = Inr txts \<and> length txts = length (texts st)"
    by blast
  moreover have "update_texts n 0 (texts st) results = update_texts n 0 (texts st) (take (nat n) results)"
    using update_texts_take [of n 0 "texts st" results] by simp
  ultimately show ?thesis by blast
qed

text \<open>A batch of five chunks for three slots.\<close>

theorem update_texts_in_range_witness:
  "stream_loop 3 (init_state 3 0) [] = Inr (init_state 3 0) \<and>
   update_texts 3 0 (texts (init_state 3 0)) [''a'', ''b'', ''c'', ''d'', ''e''] =
     Inr [''a'', ''b'', ''c''] \<and>
   update_texts 3 0 (texts (init_state 3 0)) (take (nat 3) [''a'', ''b'', ''c'', ''d'', ''e'']) =
     Inr [''a'', ''b'', ''c'']"
  using update_texts_in_range [of 3 0 "[]" "init_state 3 0" "[''a'', ''b'', ''c'', ''d'', ''e'']"]
  by (simp add: init_state_def numeral_3_eq_3)

subsection \<open>The display throttle\<close>

text \<open>
  Claim C1. In every state the loop reaches, the iteration for a batch arriving at
  \<open>current_time\<close> clears the screen and reprints all \<open>number_of_responses\<close> accumulated
  strings (setting \<open>last_clear_time\<close> to \<open>current_time\<close>) when more than \<open>clear_interval\<close>
  has elapsed since \<open>last_clear_time\<close>, and otherwise displays nothing and leaves
  \<open>last_clear_time\<close> as it was.
\<close>

theorem redraw_iff_interval_elapsed:
  assumes "stream_loop n (init_state n now) stream = Inr st"
  shows "\<exists>st'. stream_body n st (current_time, results) = Inr st' \<and>
     (if clear_interval < current_time - last_clear_time st
      then shown st' = shown st @ ClearOutput #
             map (\<lambda>i. Print (result_line (i + 1) (texts st' ! i))) [0..<nat n] \<and>
           last_clear_time st' = current_time
      else shown st' = shown st \<and> last_clear_time st' = last_clear_time st)"
proof -
  have len: "length (texts st) = nat n"
    by (rule reachable_long_enough [OF assms])
  then have "n \<le> int (length (texts st))" by simp
  from stream_body_Inr [OF this, of results current_time] obtain txts where
    l: "length txts = length (texts st)" and
    b: "stream_body n st (current_time, results) =
       Inr (if clear_interval < current_time - last_clear_time st
            then \<lparr>texts = txts, last_clear_time = current_time,
                   shown = shown st @ ClearOutput # print_texts txts,
                   clears = clears st @ [current_time]\<rparr>
            else st\<lparr>texts := txts\<rparr>)"
    by blast
  show ?thesis
    using b l len by (simp add: print_texts_nth)
qed

text \<open>A batch after 0.6 seconds is displayed; one after exactly 0.5 seconds is not.\<close>

theorem redraw_iff_interval_elapsed_witness:
  "stream_loop 3 (init_state 3 0) [] = Inr (init_state 3 0) \<and>
   stream_body 3 (init_state 3 0) (3 / 5, [''a'', ''b'', ''c'']) =
     Inr \<lparr>texts = [''a'', ''b'', ''c''], last_clear_time = 3 / 5,
          shown = [ClearOutput, Print ''Result 1: a'', Print ''Result 2: b'', Print ''Result 3: c''],
          clears = [3 / 5]\<rparr> \<and>
   stream_body 3 (init_state 3 0) (1 / 2, [''a'', ''b'', ''c'']) =
     Inr \<lparr>texts = [''a'', ''b'', ''c''], last_clear_time = 0, shown = [], clears = []\<rparr>"
  using redraw_iff_interval_elapsed [of 3 0 "[]" "init_state 3 0" "3 / 5" "[''a'', ''b'', ''c'']"]
    redraw_iff_interval_elapsed [of 3 0 "[]" "init_state 3 0" "1 / 2" "[''a'', ''b'', ''c'']"]
  by (simp add: init_state_def stream_body_def clear_interval_def print_texts_def
      enumerate_eq_zip result_line_def str_nat.simps digit_def numeral_3_eq_3)

text \<open>Batches that all arrive within \<open>clear_interval\<close> of the last clear display nothing.\<close>

lemma stream_loop_quiet_display:
  "\<forall>b \<in> set late. fst b - last_clear_time st \<le> clear_interval \<Longrightarrow>
   stream_loop n st late = Inr st' \<Longrightarrow>
   shown st' = shown st \<and> last_clear_time st' = last_clear_time st \<and> clears st' = clears st"
proof (induction late arbitrary: st)
  case Nil
  then show ?case by simp
next
  case (Cons b late)
  obtain t rs where b: "b = (t, rs)" by (cases b)
  from Cons.prems(1) b have le: "\<not> clear_interval < t - last_clear_time st" by simp
  from Cons.prems(2) obtain st1 where
    s1: "stream_body n st (t, rs) = Inr st1" and r: "stream_loop n st1 late = Inr st'"
    using b by (auto split: sum.splits)
  from s1 le have k: "shown st1 = shown st \<and> last_clear_time st1 = last_clear_time st \<and>
      clears st1 = clears st"
    by (auto simp: stream_body_def split: sum.splits)
  with Cons.prems(1) have "\<forall>b \<in> set late. fst b - last_clear_time st1 \<le> clear_interval"
    by simp
  from Cons.IH [OF this r] k show ?case by simp
qed

lemma stream_loop_quiet:
  assumes len: "n \<le> int (length (texts st))"
    and late: "\<forall>b \<in> set late. fst b - last_clear_time st \<le> clear_interval"
  shows "\<exists>st'. stream_loop n st late = Inr st' \<and> shown st' = shown st \<and>
     (\<forall>i < length (texts st). int i < n \<longrightarrow>
        texts st' ! i = texts st ! i @ concat (slot_chunks i late))"
proof -
  from stream_loop_Inr [OF len, of late] obtain st' where
    r: "stream_loop n st late = Inr st'" and
    c: "\<forall>i < length (texts st). int i < n \<longrightarrow>
        texts st' ! i = texts st ! i @ concat (slot_chunks i late)"
    by blast
  from stream_loop_quiet_display [OF late r] have "shown st' = shown st" by simp
  with r c show ?thesis by blast
qed

text \<open>
  Claim C8. When every batch after some point of the stream (the final batch in particular)
  arrives at most \<open>clear_interval\<close> after the most recent clear, the loop ends without
  another clear-and-reprint: the cell displays what it had displayed at that point and then
  only the separator line, although the chunks of those batches have been appended to
  \<open>texts\<close>.
\<close>

theorem late_batches_never_displayed:
  assumes "stream_loop n (init_state n now) stream = Inr st"
    and "\<forall>b \<in> set late. fst b - last_clear_time st \<le> clear_interval"
  shows "streaming_cell OpenAI n now (stream @ late) None = (shown st @ [Print separator], None) \<and>
         (\<exists>st'. stream_loop n (init_state n now) (stream @ late) = Inr st' \<and>
            shown st' = shown st \<and>
            (\<forall>i. int i < n \<longrightarrow> texts st' ! i = texts st ! i @ concat (slot_chunks i late)))"
proof -
  have len: "length (texts st) = nat n"
    by (rule reachable_long_enough [OF assms(1)])
  then have "n \<le> int (length (texts st))" by simp
  from stream_loop_quiet [OF this assms(2)] obtain st' where
    r: "stream_loop n st late = Inr st'" and sh: "shown st' = shown st" and
    c: "\<forall>i < length (texts st). int i < n \<longrightarrow>
        texts st' ! i = texts st ! i @ concat (slot_chunks i late)"
    by blast
  have w: "stream_loop n (init_state n now) (stream @ late) = Inr st'"
    using assms(1) r by (simp add: stream_loop_append)
  have "streaming_cell OpenAI n now (stream @ late) None = (shown st @ [Print separator], None)"
    using w sh by (simp add: streaming_cell_def)
  moreover have "\<forall>i. int i < n \<longrightarrow> texts st' ! i = texts st ! i @ concat (slot_chunks i late)"
    using c len by auto
  ultimately show ?thesis using w sh by blast
qed

text \<open>
  A final batch 0.4 seconds after the only clear: \<open>texts\<close> ends as \<open>ad\<close>, \<open>be\<close>, \<open>cf\<close>, the
  display shows \<open>a\<close>, \<open>b\<close>, \<open>c\<close> and the separator.
\<close>

theorem late_batches_never_displayed_witness:
  "stream_loop 3 (init_state 3 0) [(3 / 5, [''a'', ''b'', ''c''])] =
     Inr \<lparr>texts = [''a'', ''b'', ''c''], last_clear_time = 3 / 5,
          shown = [ClearOutput, Print ''Result 1: a'', Print ''Result 2: b'', Print ''Result 3: c''],
          clears = [3 / 5]\<rparr> \<and>
   (1::rat) - 3 / 5 \<le> clear_interval \<and>
   streaming_cell OpenAI 3 0 ([(3 / 5, [''a'', ''b'', ''c''])] @ [(1, [''d'', ''e'', ''f''])]) None =
     ([ClearOutput, Print ''Result 1: a'', Print ''Result 2: b'', Print ''Result 3: c'',
       Print separator], None) \<and>
   stream_loop 3 (init_state 3 0) ([(3 / 5, [''a'', ''b'', ''c''])] @ [(1, [''d'', ''e'', ''f''])]) =
     Inr \<lparr>texts = [''ad'', ''be'', ''cf''], last_clear_time = 3 / 5,
          shown = [ClearOutput, Print ''Result 1: a'', Print ''Result 2: b'', Print ''Result 3: c''],
          clears = [3 / 5]\<rparr>"
  using late_batches_never_displayed [of 3 0 "[(3 / 5, [''a'', ''b'', ''c''])]"
      "\<lparr>texts = [''a'', ''b'', ''c''], last_clear_time = 3 / 5,
          shown = [ClearOutput, Print ''Result 1: a'', Print ''Result 2: b'', Print ''Result 3: c''],
          clears = [3 / 5]\<rparr>" "[(1, [''d'', ''e'', ''f''])]"]
  by (simp add: init_state_def stream_body_def clear_interval_def print_texts_def
      enumerate_eq_zip result_line_def str_nat.simps digit_def numeral_3_eq_3 streaming_cell_def)

subsection \<open>Clears are at least an interval apart\<close>

text \<open>
  What a run of the loop adds to the history of clears: times of batches of the stream, each
  more than \<open>clear_interval\<close> after the one before (the first after \<open>last_clear_time\<close>),
  the last of them kept in \<open>last_clear_time\<close>, and no more than \<open>clear_interval\<close> before
  the arrival of the last batch.
\<close>

lemma stream_loop_clears:
  "n \<le> int (length (texts st)) \<Longrightarrow>
   \<exists>st' new. stream_loop n st bs = Inr st' \<and> clears st' = clears st @ new \<and>
     successively (\<lambda>a b. clear_interval < b - a) (last_clear_time st # new) \<and>
     last_clear_time st' = last (last_clear_time st # new) \<and>
     set new \<subseteq> fst ` set bs \<and>
     (if bs = [] then last_clear_time st else fst (last bs)) - last_clear_time st' \<le> clear_interval"
proof (induction bs arbitrary: st)
  case Nil
  then show ?case by (simp add: clear_interval_def)
next
  case (Cons b bs)
  obtain t rs where b: "b = (t, rs)" by (cases b)
  from stream_body_Inr [OF Cons.prems, of rs t] obtain txts where
    l: "length txts = length (texts st)" and
    s: "stream_body n st (t, rs) =
       Inr (if clear_interval < t - last_clear_time st
            then \<lparr>texts = txts, last_clear_time = t,
                   shown = shown st @ ClearOutput # print_texts txts,
                   clears = clears st @ [t]\<rparr>
            else st\<lparr>texts := txts\<rparr>)"
    by blast
  show ?case
  proof (cases "clear_interval < t - last_clear_time st")
    case True
    let ?st1 = "\<lparr>texts = txts, last_clear_time = t,
                   shown = shown st @ ClearOutput # print_texts txts,
                   clears = clears st @ [t]\<rparr>"
    have "n \<le> int (length (texts ?st1))" using l Cons.prems by simp
    from Cons.IH [OF this] obtain st' new where
      r: "stream_loop n ?st1 bs = Inr st'" and
      c: "clears st' = clears ?st1 @ new" and
      g: "successively (\<lambda>a b. clear_interval < b - a) (last_clear_time ?st1 # new)" and
      la: "last_clear_time st' = last (last_clear_time ?st1 # new)" and
      su: "set new \<subseteq> fst ` set bs" and
      e: "(if bs = [] then last_clear_time ?st1 else fst (last bs)) - last_clear_time st'
            \<le> clear_interval"
      by blast
    have "stream_loop n st (b # bs) = Inr st'"
      using b s True r by simp
    moreover have "clears st' = clears st @ (t # new)" using c by simp
    moreover have "successively (\<lambda>a b. clear_interval < b - a) (last_clear_time st # t # new)"
      using g True by simp
    moreover have "last_clear_time st' = last (last_clear_time st # t # new)"
      using la by simp
    moreover have "set (t # new) \<subseteq> fst ` set (b # bs)"
      using su b by auto
    moreover have "(if b # bs = [] then last_clear_time st else fst (last (b # bs)))
        - last_clear_time st' \<le> clear_interval"
      using e b by (simp split: if_splits)
    ultimately show ?thesis by blast
  next
    case False
    let ?st1 = "st\<lparr>texts := txts\<rparr>"
    have "n \<le> int (length (texts ?st1))" using l Cons.prems by simp
    from Cons.IH [OF this] obtain st' new where
      r: "stream_loop n ?st1 bs = Inr st'" and
      c: "clears st' = clears ?st1 @ new" and
      g: "successively (\<lambda>a b. clear_interval < b - a) (last_clear_time ?st1 # new)" and
      la: "last_clear_time st' = last (last_clear_time ?st1 # new)" and
      su: "set new \<subseteq> fst ` set bs" and
      e: "(if bs = [] then last_clear_time ?st1 else fst (last bs)) - last_clear_time st'
            \<le> clear_interval"
      by blast
    have "stream_loop n st (b # bs) = Inr st'"
      using b s False r by simp
    moreover have "clears st' = clears st @ new" using c by simp
    moreover have "successively (\<lambda>a b. clear_interval < b - a) (last_clear_time st # new)"
      using g by simp
    moreover have "last_clear_time st' = last (last_clear_time st # new)"
      using la by simp
    moreover have "set new \<subseteq> fst ` set (b # bs)"
      using su by auto
    moreover have "(if b # bs = [] then last_clear_time st else fst (last (b # bs)))
        - last_clear_time st' \<le> clear_interval"
    proof (cases "bs = []")
      case True
      with r have "st' = ?st1" by simp
      with True b False show ?thesis by simp
    next
      case False
      with e show ?thesis by simp
    qed
    ultimately show ?thesis by blast
  qed
qed

text \<open>
  Claim C4, as amended. The screen is cleared and reprinted only on the arrival of a batch,
  and successive clears (the first counted from the start of the loop) are more than
  \<open>clear_interval\<close> apart; when the last batch has arrived, the most recent clear (or the
  start of the loop) is no more than \<open>clear_interval\<close> before that arrival.
\<close>

theorem redraws_at_most_every_interval:
  "successively (\<lambda>a b. clear_interval < b - a) (now # clear_times n now stream) \<and>
   set (clear_times n now stream) \<subseteq> fst ` set stream \<and>
   end_time now stream - last (now # clear_times n now stream) \<le> clear_interval"
proof -
  from stream_loop_clears [OF init_state_long_enough, of n now stream] obtain st' new where
    r: "stream_loop n (init_state n now) stream = Inr st'" and
    c: "clears st' = clears (init_state n now) @ new" and
    g: "successively (\<lambda>a b. clear_interval < b - a) (last_clear_time (init_state n now) # new)" and
    la: "last_clear_time st' = last (last_clear_time (init_state n now) # new)" and
    su: "set new \<subseteq> fst ` set stream" and
    e: "(if stream = [] then last_clear_time (init_state n now) else fst (last stream))
          - last_clear_time st' \<le> clear_interval"
    by blast
  have i: "clears (init_state n now) = []" "last_clear_time (init_state n now) = now"
    by (simp_all add: init_state_def)
  have ct: "clear_times n now stream = new"
    using r c i by (simp add: clear_times_def)
  have "end_time now stream - last (now # new) \<le> clear_interval"
    using e unfolding la i end_time_def .
  with g su i show ?thesis
    unfolding ct by simp
qed

text \<open>
  Batches every 0.3 seconds: the screen is cleared at 0.6 and at 1.2 seconds, every second
  batch.
\<close>

theorem redraws_at_most_every_interval_witness:
  "clear_times 3 0
     [(3 / 10, [''a'']), (3 / 5, [''b'']), (9 / 10, [''c'']), (6 / 5, [''d'']), (3 / 2, [''e''])] =
     [3 / 5, 6 / 5] \<and>
   clear_interval < (3 / 5 :: rat) - 0 \<and> clear_interval < (6 / 5 :: rat) - 3 / 5 \<and>
   end_time 0
     [(3 / 10, [''a'']), (3 / 5, [''b'']), (9 / 10, [''c'']), (6 / 5, [''d'']), (3 / 2, [''e''])]
     - 6 / 5 \<le> clear_interval"
  using redraws_at_most_every_interval [of 0 3
     "[(3 / 10, [''a'']), (3 / 5, [''b'']), (9 / 10, [''c'']), (6 / 5, [''d'']), (3 / 2, [''e''])]"]
  by (simp add: clear_times_def end_time_def init_state_def stream_body_def clear_interval_def
      numeral_3_eq_3)

text \<open>
  Claim C4 as stated fails. The loop starts at time 0, batches arrive at 0.4 and at 3
  seconds: the only clear is at 3, and no clear is within 0.5 seconds of the point 1 of
  the consumption.
\<close>

theorem redrawn_every_interval_counterexample:
  "\<not> redrawn_every_interval 3 0 [(2 / 5, [''a'', ''b'', ''c'']), (3, [''d'', ''e'', ''f''])]"
proof
  assume a: "redrawn_every_interval 3 0 [(2 / 5, [''a'', ''b'', ''c'']), (3, [''d'', ''e'', ''f''])]"
  have e: "end_time 0 [(2 / 5, [''a'', ''b'', ''c'']), (3, [''d'', ''e'', ''f''])] = 3"
    by (simp add: end_time_def)
  have c: "clear_times 3 0 [(2 / 5, [''a'', ''b'', ''c'']), (3, [''d'', ''e'', ''f''])] = [3]"
    by (simp add: clear_times_def init_state_def stream_body_def clear_interval_def
        numeral_3_eq_3)
  from a have "redrawn_within [3] 1"
    unfolding redrawn_every_interval_def e c by (simp add: clear_interval_def)
  then show False
    by (simp add: redrawn_within_def clear_interval_def)
qed

subsection \<open>Labels of the printed results\<close>

text \<open>The print loops, line by line: the \<open>k\<close>-th line carries the counter's start plus \<open>k\<close>.\<close>

lemma print_results_nth:
  "print_results i results =
     map (\<lambda>k. Print (result_line (i + k) (results ! k))) [0..<length results]"
proof (induction results arbitrary: i)
  case Nil
  show ?case by simp
next
  case (Cons r rs)
  have "map (\<lambda>k. Print (result_line (i + k) ((r # rs) ! k))) [0..<length (r # rs)] =
        Print (result_line i r) #
        map (\<lambda>k. Print (result_line (i + 1 + k) (rs ! k))) [0..<length rs]"
    by (simp add: upt_conv_Cons map_Suc_upt [symmetric] del: upt_Suc)
  then show ?case using Cons.IH [of "i + 1"] by simp
qed

lemma print_chat_results_nth:
  "print_chat_results i results =
     map (\<lambda>k. Print (result_line (i + k) (fst (results ! k)))) [0..<length results]"
proof (induction results arbitrary: i)
  case Nil
  show ?case by simp
next
  case (Cons r rs)
  have "map (\<lambda>k. Print (result_line (i + k) (fst ((r # rs) ! k)))) [0..<length (r # rs)] =
        Print (result_line i (fst r)) #
        map (\<lambda>k. Print (result_line (i + 1 + k) (fst (rs ! k)))) [0..<length rs]"
    by (simp add: upt_conv_Cons map_Suc_upt [symmetric] del: upt_Suc)
  then show ?case using Cons.IH [of "i + 1"] by simp
qed

text \<open>
  Claim C10. When its call returns \<open>n\<close> results, a text-completion cell prints \<open>n\<close> lines,
  the \<open>k\<close>-th (from 0) labelled \<open>Result k+1\<close> and showing the whole result, so the labels run
  from 1 to \<open>n\<close>; a chat-completion cell prints \<open>n\<close> lines, the \<open>k\<close>-th labelled \<open>Result k\<close>
  and showing element 0 of the result, so the labels run from 0 to \<open>n - 1\<close>.
\<close>

theorem result_labels:
  "text_cell guard guard (Inr results) =
     (map (\<lambda>k. Print (result_line (k + 1) (results ! k))) [0..<length results], None) \<and>
   chat_cell guard guard (Inr chat_results) =
     (map (\<lambda>k. Print (result_line k (fst (chat_results ! k)))) [0..<length chat_results], None)"
  by (simp add: text_cell_def chat_cell_def print_results_nth print_chat_results_nth)

text \<open>Three results in each kind of cell.\<close>

theorem result_labels_witness:
  "text_cell OpenAI OpenAI (Inr [''x'', ''y'', ''z'']) =
     ([Print ''Result 1: x'', Print ''Result 2: y'', Print ''Result 3: z''], None) \<and>
   chat_cell OpenAI OpenAI (Inr [(''x'', ()), (''y'', ()), (''z'', ())]) =
     ([Print ''Result 0: x'', Print ''Result 1: y'', Print ''Result 2: z''], None)"
  using result_labels [of OpenAI "[''x'', ''y'', ''z'']" "[(''x'', ()), (''y'', ()), (''z'', ())]"]
  by (simp add: result_line_def str_nat.simps digit_def)

subsection \<open>Exceptions\<close>


text \<open>
  On results that are tuples with an element 0, the chat cell on arbitrary sequences is
  \<open>chat_cell\<close>.
\<close>

lemma print_chat_sequences_tuples:
  "print_chat_sequences i (map (\<lambda>(x, rest). x # rest) results) = (print_chat_results i results, None)"
  by (induction results arbitrary: i) (auto simp: element0_def split: prod.splits)

lemma chat_sequence_cell_tuples:
  "chat_sequence_cell guard selectedService (map_sum id (map (\<lambda>(x, rest). x # rest)) call) =
   chat_cell guard selectedService call"
  by (cases call) (simp_all add: chat_sequence_cell_def chat_cell_def print_chat_sequences_tuples)




subsection \<open>Settings store what they are given\<close>

lemma fold_settings:
  "fold (\<lambda>(k, v) s. s(k \<mapsto> v)) kvs m = m ++ map_of (rev kvs)"
  by (induction kvs arbitrary: m) (auto simp: map_add_upd_left fun_eq_iff map_add_def split: option.splits)

text \<open>
  Claim C6. A settings object built from keyword values (their names distinct, as the keys
  of a Python dict are) stores exactly those values: reading a name gives a value if and
  only if that name was given with that value.
\<close>

theorem settings_store_keyword_values:
  assumes "distinct (map fst extension_data)"
  shows "(OpenAITextRequestSettings extension_data k = Some v) = ((k, v) \<in> set extension_data)"
proof -
  have "distinct (map fst (rev extension_data))"
    using assms by (simp add: rev_map [symmetric])
  then have "(map_of (rev extension_data) k = Some v) = ((k, v) \<in> set (rev extension_data))"
    by (rule map_of_eq_Some_iff)
  then show ?thesis
    by (simp add: OpenAITextRequestSettings_def fold_settings)
qed

text \<open>
  The settings of the notebook: \<open>number_of_responses\<close> reads back as 3, as the streaming
  cell reads it.
\<close>

theorem settings_store_keyword_values_witness:
  "oai_text_request_settings ''number_of_responses'' = Some (IntValue 3) \<and>
   oai_text_request_settings ''max_tokens'' = Some (IntValue 80) \<and>
   oai_text_request_settings ''temperature'' = Some (FloatValue (7 / 10))"
  using settings_store_keyword_values [of
       "[(''max_tokens'', IntValue 80),
        (''temperature'', FloatValue (7 / 10)),
        (''top_p'', IntValue 1),
        (''frequency_penalty'', FloatValue (1 / 2)),
        (''presence_penalty'', FloatValue (1 / 2)),
        (''number_of_responses'', IntValue 3)]" "''number_of_responses''" "IntValue 3"]
  by (simp add: oai_text_request_settings_def OpenAITextRequestSettings_def)

end
